theory Spec2Isabelle
  imports Main
begin

section \<open>Go strings and the standard-library functions the packages call\<close>

text \<open>
  A Go string is a sequence of bytes, here a \<^typ>\<open>string\<close> (a list of 8-bit characters).
  Text outside ASCII is its UTF-8 encoding, byte by byte. The functions of this section
  are those of Go's \<^verbatim>\<open>strings\<close>, \<^verbatim>\<open>strconv\<close> and \<^verbatim>\<open>fmt\<close> packages that
  \<^verbatim>\<open>bibleref\<close> and \<^verbatim>\<open>util\<close> call, with the behaviour the Go documentation gives them.
\<close>

definition ord :: "char \<Rightarrow> int" where
  "ord c = of_char c"

definition isDigit :: "char \<Rightarrow> bool" where
  "isDigit c = (48 \<le> ord c \<and> ord c \<le> 57)"

definition isASCII :: "char \<Rightarrow> bool" where
  "isASCII c = (ord c < 128)"

text \<open>
  White space is what \<^verbatim>\<open>unicode.IsSpace\<close> accepts: the ASCII characters tab, line feed,
  vertical tab, form feed, carriage return and space, and the runes U+0085, U+00A0,
  U+1680, U+2000 to U+200A, U+2028, U+2029, U+202F, U+205F and U+3000, met in a string
  as their UTF-8 encodings of two or three bytes.
\<close>

definition asciiSpace :: "char \<Rightarrow> bool" where
  "asciiSpace c = (c = CHR 0x09 \<or> c = CHR 0x0A \<or> c = CHR 0x0B \<or> c = CHR 0x0C
                   \<or> c = CHR 0x0D \<or> c = CHR 0x20)"

definition isSpace2 :: "char \<Rightarrow> char \<Rightarrow> bool" where
  "isSpace2 a b = (a = CHR 0xC2 \<and> (b = CHR 0x85 \<or> b = CHR 0xA0))"

definition isSpace3 :: "char \<Rightarrow> char \<Rightarrow> char \<Rightarrow> bool" where
  "isSpace3 a b c =
     ((a = CHR 0xE1 \<and> b = CHR 0x9A \<and> c = CHR 0x80)
      \<or> (a = CHR 0xE2 \<and> b = CHR 0x80
          \<and> ((128 \<le> ord c \<and> ord c \<le> 138) \<or> c = CHR 0xA8 \<or> c = CHR 0xA9 \<or> c = CHR 0xAF))
      \<or> (a = CHR 0xE2 \<and> b = CHR 0x81 \<and> c = CHR 0x9F)
      \<or> (a = CHR 0xE3 \<and> b = CHR 0x80 \<and> c = CHR 0x80))"

text \<open>
  \<open>spaceWidth s\<close> is the number of bytes of the white-space rune that \<open>s\<close> starts with,
  and 0 when it starts with none; \<open>spaceWidthEnd s\<close> is the same for the rune \<open>s\<close> ends
  with. The first byte of every encoding above is an ASCII byte or a UTF-8 lead byte,
  never a continuation byte, so an occurrence of one in a string is a rune of the
  string however the bytes before it decode (Go decodes an invalid byte as a rune of
  width 1 that is not white space).
\<close>

fun spaceWidth :: "string \<Rightarrow> nat" where
  "spaceWidth [] = 0"
| "spaceWidth [a] = (if asciiSpace a then 1 else 0)"
| "spaceWidth [a, b] = (if asciiSpace a then 1 else if isSpace2 a b then 2 else 0)"
| "spaceWidth (a # b # c # s) =
     (if asciiSpace a then 1 else if isSpace2 a b then 2 else if isSpace3 a b c then 3 else 0)"

definition spaceWidthEnd :: "string \<Rightarrow> nat" where
  "spaceWidthEnd s =
     (case rev s of
        [] \<Rightarrow> 0
      | [c] \<Rightarrow> (if asciiSpace c then 1 else 0)
      | [c, b] \<Rightarrow> (if asciiSpace c then 1 else if isSpace2 b c then 2 else 0)
      | c # b # a # r \<Rightarrow>
          (if asciiSpace c then 1 else if isSpace2 b c then 2
           else if isSpace3 a b c then 3 else 0))"

lemma spaceWidth_le: "spaceWidth s \<le> length s"
  by (induction s rule: spaceWidth.induct) auto

lemma spaceWidthEnd_le: "spaceWidthEnd s \<le> length s"
proof -
  have "spaceWidthEnd s \<le> length (rev s)"
    unfolding spaceWidthEnd_def by (auto split: list.splits)
  then show ?thesis by simp
qed

text \<open>\<^verbatim>\<open>strings.TrimSpace\<close>: all leading and trailing white space removed.\<close>

function trimLeft :: "string \<Rightarrow> string" where
  "trimLeft s = (if spaceWidth s = 0 then s else trimLeft (drop (spaceWidth s) s))"
  by pat_completeness auto
termination
proof (relation "measure length")
  show "wf (measure length)" by simp
next
  fix s :: string
  assume "spaceWidth s \<noteq> 0"
  moreover have "spaceWidth s \<le> length s" by (rule spaceWidth_le)
  ultimately show "(drop (spaceWidth s) s, s) \<in> measure length" by simp
qed

function trimRight :: "string \<Rightarrow> string" where
  "trimRight s =
     (if spaceWidthEnd s = 0 then s else trimRight (take (length s - spaceWidthEnd s) s))"
  by pat_completeness auto
termination
proof (relation "measure length")
  show "wf (measure length)" by simp
next
  fix s :: string
  assume "spaceWidthEnd s \<noteq> 0"
  moreover have "spaceWidthEnd s \<le> length s" by (rule spaceWidthEnd_le)
  ultimately show "(take (length s - spaceWidthEnd s) s, s) \<in> measure length" by simp
qed

declare trimLeft.simps [simp del]
declare trimRight.simps [simp del]

definition TrimSpace :: "string \<Rightarrow> string" where
  "TrimSpace s = trimRight (trimLeft s)"

text \<open>
  \<^verbatim>\<open>strings.Fields\<close>: the maximal runs of bytes between white space, in order; no field is
  empty. \<open>cur\<close> holds the bytes of the field being read.
\<close>

definition flush :: "string \<Rightarrow> string list" where
  "flush cur = (if cur = [] then [] else [cur])"

function fieldsFrom :: "string \<Rightarrow> string \<Rightarrow> string list" where
  "fieldsFrom cur s =
     (if s = [] then flush cur
      else if spaceWidth s \<noteq> 0 then flush cur @ fieldsFrom [] (drop (spaceWidth s) s)
      else fieldsFrom (cur @ [hd s]) (tl s))"
  by pat_completeness auto
termination
proof (relation "measure (\<lambda>(cur, s). length s)")
  show "wf (measure (\<lambda>(cur, s). length s))" by simp
next
  fix cur s :: string
  assume "s \<noteq> []" "spaceWidth s \<noteq> 0"
  then show "(([], drop (spaceWidth s) s), (cur, s)) \<in> measure (\<lambda>(cur, s). length s)"
    by simp
next
  fix cur s :: string
  assume "s \<noteq> []"
  then show "((cur @ [hd s], tl s), (cur, s)) \<in> measure (\<lambda>(cur, s). length s)"
    by simp
qed

declare fieldsFrom.simps [simp del]

definition Fields :: "string \<Rightarrow> string list" where
  "Fields s = fieldsFrom [] s"

text \<open>\<^verbatim>\<open>strings.Join\<close>.\<close>

fun Join :: "string list \<Rightarrow> string \<Rightarrow> string" where
  "Join [] sep = []"
| "Join [x] sep = x"
| "Join (x # y # ys) sep = x @ sep @ Join (y # ys) sep"

text \<open>
  \<^verbatim>\<open>strings.ToLower\<close>. On a string of ASCII bytes Go maps \<open>A\<close> to \<open>Z\<close> onto \<open>a\<close> to \<open>z\<close>
  and keeps every other byte. On a string with a byte outside ASCII it maps every rune
  through the Unicode case tables of Go's \<^verbatim>\<open>unicode\<close> package; that table is not part
  of this repository, so the result on such strings is the parameter \<open>lowerU\<close>, and
  every theorem below holds whatever that function is.
\<close>

definition asciiLower :: "char \<Rightarrow> char" where
  "asciiLower c = (if 65 \<le> ord c \<and> ord c \<le> 90 then char_of (ord c + 32) else c)"

definition ToLower :: "(string \<Rightarrow> string) \<Rightarrow> string \<Rightarrow> string" where
  "ToLower lowerU s = (if list_all isASCII s then map asciiLower s else lowerU s)"

text \<open>
  \<^verbatim>\<open>strings.HasPrefix\<close>, \<^verbatim>\<open>strings.Contains\<close>, \<^verbatim>\<open>strings.ReplaceAll\<close> and
  \<^verbatim>\<open>strings.Split\<close>. The program passes the last three a constant pattern that is never
  empty: they replace, or split at, the occurrences of the pattern found from left to
  right without overlap. (With an empty pattern Go works rune by rune; that case is
  never reached and is left as the identity, respectively the one-piece split.)
\<close>

fun HasPrefix :: "string \<Rightarrow> string \<Rightarrow> bool" where
  "HasPrefix s [] = True"
| "HasPrefix [] (p # ps) = False"
| "HasPrefix (c # cs) (p # ps) = (c = p \<and> HasPrefix cs ps)"

fun Contains :: "string \<Rightarrow> string \<Rightarrow> bool" where
  "Contains [] sub = (sub = [])"
| "Contains (c # cs) sub = (HasPrefix (c # cs) sub \<or> Contains cs sub)"

fun ReplaceAll :: "string \<Rightarrow> string \<Rightarrow> string \<Rightarrow> string" where
  "ReplaceAll [] old new = []"
| "ReplaceAll (c # cs) old new =
     (if old \<noteq> [] \<and> HasPrefix (c # cs) old
      then new @ ReplaceAll (drop (length old - 1) cs) old new
      else c # ReplaceAll cs old new)"

fun splitFrom :: "string \<Rightarrow> string \<Rightarrow> string \<Rightarrow> string list" where
  "splitFrom cur [] sep = [cur]"
| "splitFrom cur (c # cs) sep =
     (if sep \<noteq> [] \<and> HasPrefix (c # cs) sep
      then cur # splitFrom [] (drop (length sep - 1) cs) sep
      else splitFrom (cur @ [c]) cs sep)"

definition Split :: "string \<Rightarrow> string \<Rightarrow> string list" where
  "Split s sep = splitFrom [] s sep"

text \<open>
  \<^verbatim>\<open>strconv.Atoi\<close> for a 64-bit \<^verbatim>\<open>int\<close>: an optional sign, then decimal digits read by
  the loop of \<^verbatim>\<open>ParseUint\<close>, which stops with a syntax error at the first byte that is
  not a digit and with a range error as soon as the value leaves 64 bits; \<^verbatim>\<open>ParseInt\<close>
  then refuses a value outside \<open>-2^63 .. 2^63 - 1\<close>. (Atoi's fast path for short strings
  returns the same results.) The error keeps the input, as Go's \<^verbatim>\<open>NumError\<close> does.
\<close>

datatype NumError = ErrSyntax string | ErrRange string

definition maxUint64 :: int where
  "maxUint64 = 18446744073709551615"

definition cutoff64 :: int where
  "cutoff64 = maxUint64 div 10 + 1"

definition maxInt :: int where
  "maxInt = 9223372036854775807"

datatype UintStop = StopSyntax | StopRange

fun parseUintLoop :: "int \<Rightarrow> string \<Rightarrow> UintStop + int" where
  "parseUintLoop n [] = Inr n"
| "parseUintLoop n (c # cs) =
     (if \<not> isDigit c then Inl StopSyntax
      else if cutoff64 \<le> n then Inl StopRange
      else if maxUint64 < n * 10 + (ord c - 48) then Inl StopRange
      else parseUintLoop (n * 10 + (ord c - 48)) cs)"

definition Atoi :: "string \<Rightarrow> NumError + int" where
  "Atoi s =
     (if s = [] then Inl (ErrSyntax s)
      else
        let neg = (hd s = CHR ''-'');
            body = (if hd s = CHR ''+'' \<or> hd s = CHR ''-'' then tl s else s)
        in if body = [] then Inl (ErrSyntax s)
           else case parseUintLoop 0 body of
                  Inl StopSyntax \<Rightarrow> Inl (ErrSyntax s)
                | Inl StopRange \<Rightarrow> Inl (ErrRange s)
                | Inr un \<Rightarrow>
                    if \<not> neg \<and> maxInt + 1 \<le> un then Inl (ErrRange s)
                    else if neg \<and> maxInt + 1 < un then Inl (ErrRange s)
                    else Inr (if neg then - un else un))"

text \<open>\<^verbatim>\<open>strconv.Itoa\<close>, which is also what \<^verbatim>\<open>fmt.Sprintf\<close> writes for \<^verbatim>\<open>%d\<close>.\<close>

definition digitChar :: "int \<Rightarrow> char" where
  "digitChar d = char_of (48 + d)"

function digitsOf :: "int \<Rightarrow> string" where
  "digitsOf n = (if n < 10 then [digitChar n] else digitsOf (n div 10) @ [digitChar (n mod 10)])"
  by pat_completeness auto
termination
  by (relation "measure nat") auto

declare digitsOf.simps [simp del]

definition Itoa :: "int \<Rightarrow> string" where
  "Itoa i = (if i < 0 then CHR ''-'' # digitsOf (- i) else digitsOf i)"

text \<open>
  What \<^verbatim>\<open>fmt.Sprintf\<close> writes for \<^verbatim>\<open>%c\<close> given a byte: the rune with that code
  point, in UTF-8 (two bytes from 128 on).
\<close>

definition fmtC :: "char \<Rightarrow> string" where
  "fmtC b = (if ord b < 128 then [b]
             else [char_of (192 + ord b div 64), char_of (128 + ord b mod 64)])"

section \<open>Package util\<close>

text \<open>
  The two constants of \<^verbatim>\<open>util/util.go\<close>, byte for byte as the source file holds them.
  \<open>EnDash\<close> is the eight bytes \<open>C3 A2 E2 82 AC E2 80 9C\<close> (the runes U+00E2, U+20AC and
  U+201C); the en dash U+2013 itself is the three bytes \<open>E2 80 93\<close>, named \<open>enDashRune\<close>
  here to state what callers type and what the tests expect.
\<close>

definition EnDash :: string where
  "EnDash = [CHR 0xC3, CHR 0xA2, CHR 0xE2, CHR 0x82, CHR 0xAC, CHR 0xE2, CHR 0x80, CHR 0x9C]"

definition Hyphen :: string where
  "Hyphen = ''-''"

definition enDashRune :: string where
  "enDashRune = [CHR 0xE2, CHR 0x80, CHR 0x93]"

record VerseRange =
  StartVerse :: int
  EndVerse :: "int option"

definition VerseRange_String :: "VerseRange \<Rightarrow> string" where
  "VerseRange_String v =
     (case EndVerse v of
        None \<Rightarrow> Itoa (StartVerse v)
      | Some e \<Rightarrow> Itoa (StartVerse v) @ EnDash @ Itoa e)"

section \<open>Package bibleref: errors, books and the table\<close>

datatype ErrKind =
  KindParse | KindUnknownBook | KindInvalidBook | KindInvalidChapter | KindInvalidVerse
  | KindUnsupportedFormat

datatype Sentinel =
  ErrBibleRefParseFailed | ErrBibleRefValidationFailed | ErrInvalidOSISCode | ErrInvalidBook
  | ErrInvalidChapter | ErrInvalidVerse | ErrUnsupportedFormat

text \<open>
  \<^verbatim>\<open>BibleRefError\<close>: the kind, the optional message, the sentinel error and the cause,
  which is absent, the error of \<^verbatim>\<open>Atoi\<close>, or another \<^verbatim>\<open>BibleRefError\<close>.
\<close>

datatype BibleRefError =
  BibleRefError (Kind: ErrKind) (Message: "string option") (Err: Sentinel) (Cause: ErrCause)
and ErrCause = NoCause | NumCause NumError | RefCause BibleRefError

record Book =
  OSIS :: string
  Name :: string
  Aliases :: "string list"
  Testament :: string
  Order :: int
  Chapters :: int

definition Book_Validate :: "Book \<Rightarrow> BibleRefError option" where
  "Book_Validate b =
     (if Book.OSIS b = [] then
        Some (BibleRefError KindInvalidBook None ErrInvalidOSISCode NoCause)
      else if Name b = [] then
        Some (BibleRefError KindInvalidBook (Some ''book name cannot be empty'')
                ErrInvalidBook NoCause)
      else if Chapters b < 1 then
        Some (BibleRefError KindInvalidBook (Some ''book must have at least one chapter'')
                ErrInvalidBook NoCause)
      else if Order b < 1 then
        Some (BibleRefError KindInvalidBook (Some ''book order must be a positive integer'')
                ErrInvalidBook NoCause)
      else None)"

record Table =
  ByOsis :: "string \<rightharpoonup> Book"
  ByAlias :: "string \<rightharpoonup> string"

section \<open>Normalisation\<close>

definition NormalizeAlias :: "(string \<Rightarrow> string) \<Rightarrow> string \<Rightarrow> string" where
  "NormalizeAlias lowerU s =
     (let res = TrimSpace s;
          res = ToLower lowerU res;
          res = ReplaceAll res ''.'' [];
          res = ReplaceAll res EnDash Hyphen;
          res = ReplaceAll res ''iii '' ''3 '';
          res = ReplaceAll res ''ii '' ''2 '';
          res = ReplaceAll res ''i '' ''1 '';
          res = ReplaceAll res [CHR 0xE2, CHR 0x80, CHR 0x99] [CHR 0x27];
          res = ReplaceAll res [CHR 0xE2, CHR 0x80, CHR 0x98] [CHR 0x27];
          res = ReplaceAll res [CHR 0xE2, CHR 0x80, CHR 0x9C] [CHR 0x22];
          res = ReplaceAll res [CHR 0xE2, CHR 0x80, CHR 0x9D] [CHR 0x22]
      in res)"

definition NormalizeVerseRange :: "string \<Rightarrow> string" where
  "NormalizeVerseRange s =
     (let res = TrimSpace s;
          res = ReplaceAll res Hyphen EnDash;
          res = ReplaceAll res '' '' []
      in res)"

section \<open>Building the table\<close>

definition contains :: "(string \<rightharpoonup> string) \<Rightarrow> string \<Rightarrow> bool" where
  "contains m key = (m key \<noteq> None)"

definition addAlias :: "(string \<Rightarrow> string) \<Rightarrow> Book \<Rightarrow> Table \<Rightarrow> string \<Rightarrow> Table" where
  "addAlias lowerU book tbl alias =
     tbl\<lparr>ByAlias := (ByAlias tbl)(NormalizeAlias lowerU alias \<mapsto> Book.OSIS book)\<rparr>"

text \<open>The body of the loop of \<^verbatim>\<open>NewTable\<close> for a book that passed \<^verbatim>\<open>Validate\<close>.\<close>

definition addBook :: "(string \<Rightarrow> string) \<Rightarrow> Table \<Rightarrow> Book \<Rightarrow> Table" where
  "addBook lowerU tbl book =
     (let tbl1 = tbl\<lparr>ByOsis := (ByOsis tbl)(Book.OSIS book \<mapsto> book)\<rparr>;
          tbl2 = foldl (addAlias lowerU book) tbl1 (Aliases book)
      in if \<not> contains (ByAlias tbl2) (NormalizeAlias lowerU (Book.OSIS book))
         then tbl2\<lparr>ByAlias :=
                (ByAlias tbl2)(NormalizeAlias lowerU (Book.OSIS book) \<mapsto> Book.OSIS book)\<rparr>
         else tbl2)"

fun addBooks :: "(string \<Rightarrow> string) \<Rightarrow> Table \<Rightarrow> Book list \<Rightarrow> BibleRefError + Table" where
  "addBooks lowerU tbl [] = Inr tbl"
| "addBooks lowerU tbl (book # books) =
     (case Book_Validate book of
        Some err \<Rightarrow> Inl err
      | None \<Rightarrow> addBooks lowerU (addBook lowerU tbl book) books)"

definition NewTable :: "(string \<Rightarrow> string) \<Rightarrow> Book list \<Rightarrow> BibleRefError + Table" where
  "NewTable lowerU books = addBooks lowerU \<lparr>ByOsis = Map.empty, ByAlias = Map.empty\<rparr> books"

section \<open>References: rendering and validation\<close>

record BibleRef =
  OSIS :: string
  Chapter :: int
  Verse :: "VerseRange option"

definition BibleRef_String :: "BibleRef \<Rightarrow> string" where
  "BibleRef_String r =
     (case Verse r of
        None \<Rightarrow> BibleRef.OSIS r @ '' '' @ Itoa (Chapter r)
      | Some v \<Rightarrow> BibleRef.OSIS r @ '' '' @ Itoa (Chapter r) @ '':'' @ VerseRange_String v)"

text \<open>
  \<^verbatim>\<open>Format\<close> is an integer type with three named values; any other value takes the
  default branch. The table is a pointer that may be nil: \<^verbatim>\<open>FormatHuman\<close> reads it, so
  a nil table makes that branch panic (\<open>None\<close>); a book missing from the map is Go's
  zero \<^verbatim>\<open>Book\<close>, whose name is empty.
\<close>

datatype Format = FormatOSIS | FormatHuman | FormatCanonical | FormatOther int

definition BibleRef_Format :: "BibleRef \<Rightarrow> Format \<Rightarrow> Table option \<Rightarrow> string option" where
  "BibleRef_Format r f tbl =
     (case f of
        FormatOSIS \<Rightarrow>
          (case Verse r of
             None \<Rightarrow> Some (BibleRef.OSIS r @ ''.'' @ Itoa (Chapter r))
           | Some v \<Rightarrow>
               Some (BibleRef.OSIS r @ ''.'' @ Itoa (Chapter r) @ ''.'' @ VerseRange_String v))
      | FormatHuman \<Rightarrow>
          (case tbl of
             None \<Rightarrow> None
           | Some t \<Rightarrow>
               (let name = (case ByOsis t (BibleRef.OSIS r) of None \<Rightarrow> [] | Some book \<Rightarrow> Name book)
                in case Verse r of
                     None \<Rightarrow> Some (name @ '' '' @ Itoa (Chapter r))
                   | Some v \<Rightarrow>
                       Some (name @ '' '' @ Itoa (Chapter r) @ '':'' @ VerseRange_String v)))
      | FormatCanonical \<Rightarrow>
          (case Verse r of
             None \<Rightarrow> Some (BibleRef.OSIS r @ '' '' @ Itoa (Chapter r))
           | Some v \<Rightarrow>
               Some (BibleRef.OSIS r @ '' '' @ Itoa (Chapter r) @ '':'' @ VerseRange_String v))
      | FormatOther n \<Rightarrow> Some (BibleRef_String r))"

definition BibleRef_Validate :: "BibleRef \<Rightarrow> Table \<Rightarrow> BibleRefError option" where
  "BibleRef_Validate r tbl =
     (case ByOsis tbl (BibleRef.OSIS r) of
        None \<Rightarrow>
          Some (BibleRefError KindUnknownBook
                  (Some (''unknown OSIS code: '' @ BibleRef.OSIS r)) ErrInvalidOSISCode NoCause)
      | Some book \<Rightarrow>
          if Chapter r < 1 \<or> Chapters book < Chapter r then
            Some (BibleRefError KindInvalidChapter
                    (Some (''invalid chapter number '' @ Itoa (Chapter r) @ '' for book ''
                           @ Name book))
                    ErrInvalidChapter NoCause)
          else
            (case Verse r of
               None \<Rightarrow> None
             | Some v \<Rightarrow>
                 if StartVerse v < 1 then
                   Some (BibleRefError KindInvalidVerse
                           (Some (''start verse must be a positive integer, got ''
                                  @ Itoa (StartVerse v)))
                           ErrInvalidVerse NoCause)
                 else
                   (case EndVerse v of
                      None \<Rightarrow> None
                    | Some e \<Rightarrow>
                        if e < StartVerse v then
                          Some (BibleRefError KindInvalidVerse
                                  (Some (''end verse must be greater than or equal to start verse, got start: ''
                                         @ Itoa (StartVerse v) @ '', end: '' @ Itoa e))
                                  ErrInvalidVerse NoCause)
                        else None)))"

section \<open>Parsing\<close>

definition parseTail :: "string \<Rightarrow> BibleRefError + string" where
  "parseTail tail =
     (if tail = [] then
        Inl (BibleRefError KindParse (Some ''tail cannot be empty'') ErrBibleRefParseFailed NoCause)
      else if \<not> isDigit (hd tail) then
        Inl (BibleRefError KindInvalidChapter
               (Some (''tail must start with a digit, got: '' @ tail)) ErrInvalidChapter NoCause)
      else
        let i = length (takeWhile isDigit tail) in
        if i = length tail then Inr tail
        else if tail ! i \<noteq> CHR '':'' then
          Inl (BibleRefError KindParse
                 (Some (''expected ':' after chapter, got: '' @ fmtC (tail ! i)
                        @ '' at position '' @ Itoa (int i)))
                 ErrBibleRefParseFailed NoCause)
        else
          let versesPart = drop (i + 1) tail in
          if versesPart = [] then
            Inl (BibleRefError KindInvalidVerse
                   (Some (''verse part cannot be empty after ':'' @ [CHR 0x27]))
                   ErrInvalidVerse NoCause)
          else Inr (take i tail @ '':'' @ NormalizeVerseRange versesPart))"

definition parseVerseRange :: "string \<Rightarrow> string list \<Rightarrow> BibleRefError + VerseRange" where
  "parseVerseRange s parts =
     (if length parts \<noteq> 2 then
        Inl (BibleRefError KindParse (Some (''invalid verse range: '' @ s))
               ErrBibleRefParseFailed NoCause)
      else
        case Atoi (parts ! 0) of
          Inl err \<Rightarrow>
            Inl (BibleRefError KindInvalidVerse (Some (''invalid start verse: '' @ parts ! 0))
                   ErrInvalidVerse (NumCause err))
        | Inr startVerse \<Rightarrow>
            (case Atoi (parts ! 1) of
               Inl err \<Rightarrow>
                 Inl (BibleRefError KindInvalidVerse (Some (''invalid end verse: '' @ parts ! 1))
                        ErrInvalidVerse (NumCause err))
             | Inr endVerse \<Rightarrow> Inr \<lparr>StartVerse = startVerse, EndVerse = Some endVerse\<rparr>))"

definition parseChapterVerse :: "string \<Rightarrow> BibleRefError + int \<times> VerseRange option" where
  "parseChapterVerse s =
     (let parts = Split s '':'' in
      if length parts = 0 then
        Inl (BibleRefError KindParse
               (Some ''chapter and verse string must contain at least a chapter'')
               ErrBibleRefParseFailed NoCause)
      else if 2 < length parts then
        Inl (BibleRefError KindParse
               (Some ''chapter and verse string must contain at most one colon'')
               ErrBibleRefParseFailed NoCause)
      else
        let chapterStr = parts ! 0 in
        case Atoi chapterStr of
          Inl err \<Rightarrow>
            Inl (BibleRefError KindInvalidChapter (Some (''invalid chapter: '' @ chapterStr))
                   ErrInvalidChapter (NumCause err))
        | Inr chapter \<Rightarrow>
            if length parts = 1 then Inr (chapter, None)
            else
              let verseStr = NormalizeVerseRange (parts ! 1) in
              if Contains verseStr EnDash then
                (case parseVerseRange verseStr (Split verseStr EnDash) of
                   Inl err \<Rightarrow> Inl err
                 | Inr verseRange \<Rightarrow> Inr (chapter, Some verseRange))
              else
                (case Atoi verseStr of
                   Inl err \<Rightarrow>
                     Inl (BibleRefError KindInvalidVerse (Some (''invalid verse: '' @ verseStr))
                            ErrInvalidVerse (NumCause err))
                 | Inr startVerse \<Rightarrow>
                     Inr (chapter, Some \<lparr>StartVerse = startVerse, EndVerse = None\<rparr>)))"

text \<open>
  The two map lookups of \<^verbatim>\<open>parseRefString\<close>: the alias map first, the normalised head
  itself as the id when the alias map has no such key; then the book of that id.
\<close>

definition lookupBook :: "Table \<Rightarrow> string \<Rightarrow> Book option" where
  "lookupBook tbl bookStr =
     (let bookOsis = (case ByAlias tbl bookStr of Some osis \<Rightarrow> osis | None \<Rightarrow> bookStr)
      in ByOsis tbl bookOsis)"

text \<open>The check of \<^verbatim>\<open>parseRefString\<close> on the start verse, made before the reference is built.\<close>

definition startVerseCheck :: "VerseRange option \<Rightarrow> BibleRefError option" where
  "startVerseCheck verseRange =
     (case verseRange of
        None \<Rightarrow> None
      | Some v \<Rightarrow>
          if StartVerse v < 1 then
            Some (BibleRefError KindInvalidVerse
                    (Some (''invalid verse number: '' @ Itoa (StartVerse v)))
                    ErrInvalidVerse NoCause)
          else None)"

definition parseRefString :: "(string \<Rightarrow> string) \<Rightarrow> string \<Rightarrow> Table \<Rightarrow> BibleRefError + BibleRef" where
  "parseRefString lowerU s0 tbl =
     (let s = TrimSpace s0 in
      if s = [] then
        Inl (BibleRefError KindParse (Some ''reference string cannot be empty'')
               ErrBibleRefParseFailed NoCause)
      else
        let fields = Fields s in
        if length fields < 2 then
          Inl (BibleRefError KindParse
                 (Some ''reference string must contain at least a book and a chapter'')
                 ErrBibleRefParseFailed NoCause)
        else
          let bookPart = Join (butlast fields) '' '';
              bookStr = NormalizeAlias lowerU bookPart
          in case parseTail (last fields) of
               Inl err \<Rightarrow> Inl err
             | Inr chapterVerseStr \<Rightarrow>
                 (case lookupBook tbl bookStr of
                    None \<Rightarrow>
                      Inl (BibleRefError KindUnknownBook (Some (''unknown book: '' @ bookStr))
                             ErrInvalidOSISCode NoCause)
                  | Some book \<Rightarrow>
                      (case parseChapterVerse chapterVerseStr of
                         Inl err \<Rightarrow> Inl err
                       | Inr (chapter, verseRange) \<Rightarrow>
                           (case startVerseCheck verseRange of
                              Some err \<Rightarrow> Inl err
                            | None \<Rightarrow>
                                let ref = \<lparr>OSIS = Book.OSIS book, Chapter = chapter,
                                           Verse = verseRange\<rparr>
                                in case BibleRef_Validate ref tbl of
                                     Some err \<Rightarrow> Inl err
                                   | None \<Rightarrow> Inr ref))))"

definition doParse :: "(string \<Rightarrow> string) \<Rightarrow> string \<Rightarrow> Table \<Rightarrow> BibleRefError + BibleRef" where
  "doParse lowerU s tbl =
     (case parseRefString lowerU s tbl of
        Inl err \<Rightarrow> Inl err
      | Inr ref \<Rightarrow>
          (case BibleRef_Validate ref tbl of
             Some err \<Rightarrow> Inl err
           | None \<Rightarrow> Inr ref))"

definition Parse :: "(string \<Rightarrow> string) \<Rightarrow> string \<Rightarrow> Table \<Rightarrow> BibleRefError + BibleRef" where
  "Parse lowerU s tbl =
     (case doParse lowerU s tbl of
        Inl err \<Rightarrow>
          Inl (BibleRefError KindParse (Some (''failed to parse reference string: '' @ s))
                 ErrBibleRefParseFailed (RefCause err))
      | Inr parseResult \<Rightarrow> Inr parseResult)"

section \<open>Fixtures\<close>

text \<open>
  The books of the repository's tests: Proverbs as in \<^verbatim>\<open>testBooks\<close>, and the two books of
  \<^verbatim>\<open>TestTable_DuplicateAliases\<close>, which share the alias \<^verbatim>\<open>prov\<close>; a book named
  \<^verbatim>\<open>Book\<close> and the second book of Kings with the alias \<^verbatim>\<open>ii kings\<close>, for the spec's
  scenarios. The tables are what \<^verbatim>\<open>NewTable\<close> builds from them. All their strings are ASCII, so the lower-casing of
  other strings plays no part and is taken to be the identity.
\<close>

definition emptyTable :: Table where
  "emptyTable = \<lparr>ByOsis = Map.empty, ByAlias = Map.empty\<rparr>"

definition provBook :: Book where
  "provBook = \<lparr>Book.OSIS = ''Prov'', Name = ''Proverbs'',
                Aliases = [''proverbs'', ''prov'', ''pro''], Testament = ''OT'',
                Order = 20, Chapters = 31\<rparr>"

definition provTable :: Table where
  "provTable = addBook (\<lambda>s. s) emptyTable provBook"

definition dupProv :: Book where
  "dupProv = \<lparr>Book.OSIS = ''Prov'', Name = ''Proverbs'', Aliases = [''proverbs'', ''prov''],
               Testament = ''OT'', Order = 20, Chapters = 31\<rparr>"

definition dupMatt :: Book where
  "dupMatt = \<lparr>Book.OSIS = ''Matt'', Name = ''Matthew'', Aliases = [''matthew'', ''prov''],
               Testament = ''NT'', Order = 40, Chapters = 28\<rparr>"

definition booksWithDuplicates :: "Book list" where
  "booksWithDuplicates = [dupProv, dupMatt]"

definition dupTable :: Table where
  "dupTable = addBook (\<lambda>s. s) (addBook (\<lambda>s. s) emptyTable dupProv) dupMatt"

definition bookBook :: Book where
  "bookBook = \<lparr>Book.OSIS = ''Book'', Name = ''Book'', Aliases = [''book''], Testament = ''OT'',
                Order = 1, Chapters = 1\<rparr>"

definition bookTable :: Table where
  "bookTable = addBook (\<lambda>s. s) emptyTable bookBook"

definition kingsBook :: Book where
  "kingsBook = \<lparr>Book.OSIS = ''2Kgs'', Name = ''2 Kings'', Aliases = [''2 kings'', ''ii kings''],
                 Testament = ''OT'', Order = 12, Chapters = 25\<rparr>"

lemma NewTable_provBook: "NewTable (\<lambda>s. s) [provBook] = Inr provTable"
  by (simp add: NewTable_def provTable_def emptyTable_def Book_Validate_def provBook_def)

lemma NewTable_booksWithDuplicates: "NewTable (\<lambda>s. s) booksWithDuplicates = Inr dupTable"
  by (simp add: NewTable_def dupTable_def emptyTable_def Book_Validate_def dupProv_def
      dupMatt_def booksWithDuplicates_def)

lemma NewTable_bookBook: "NewTable (\<lambda>s. s) [bookBook] = Inr bookTable"
  by (simp add: NewTable_def bookTable_def emptyTable_def Book_Validate_def bookBook_def)

section \<open>Notions used to state the properties\<close>

text \<open>
  The number a string of decimal digits denotes; the strings with no white space at any
  position; the part of a canonical rendering after the id and the space; and the keys a
  book is to be found under, its normalised id and its normalised aliases.
\<close>

definition step10 :: "int \<Rightarrow> char \<Rightarrow> int" where
  "step10 n c = n * 10 + (ord c - 48)"

definition digitsValue :: "string \<Rightarrow> int" where
  "digitsValue s = foldl step10 0 s"

fun noSpace :: "string \<Rightarrow> bool" where
  "noSpace [] = True"
| "noSpace (c # s) = (spaceWidth (c # s) = 0 \<and> noSpace s)"

definition canonTail :: "int \<Rightarrow> VerseRange option \<Rightarrow> string" where
  "canonTail ch vr =
     Itoa ch @ (case vr of None \<Rightarrow> [] | Some v \<Rightarrow> '':'' @ VerseRange_String v)"

definition bookKeys :: "(string \<Rightarrow> string) \<Rightarrow> Book \<Rightarrow> string set" where
  "bookKeys lowerU b = NormalizeAlias lowerU ` set (Book.OSIS b # Aliases b)"

section \<open>Table construction\<close>

lemma Book_Validate_kind: "Book_Validate b = Some e \<Longrightarrow> Kind e = KindInvalidBook"
  by (auto simp: Book_Validate_def split: if_splits)

lemma Book_Validate_order: "Order b < 1 \<Longrightarrow> Book_Validate b \<noteq> None"
  by (simp add: Book_Validate_def)

lemma addBooks_rejects:
  "b \<in> set books \<Longrightarrow> Order b < 1 \<Longrightarrow>
     \<exists>e. addBooks lowerU tbl books = Inl e \<and> Kind e = KindInvalidBook"
proof (induction books arbitrary: tbl)
  case Nil
  then show ?case by simp
next
  case (Cons x xs)
  show ?case
  proof (cases "Book_Validate x")
    case (Some e)
    then show ?thesis by (simp add: Book_Validate_kind)
  next
    case None
    have "b \<noteq> x" using None Book_Validate_order [OF Cons.prems(2)] by auto
    with Cons.prems have "b \<in> set xs" by simp
    with Cons.IH Cons.prems None show ?thesis by simp
  qed
qed

text \<open>
  C10. \<^verbatim>\<open>NewTable\<close> returns an error, and no table, for every list that holds a book
  whose \<^verbatim>\<open>Order\<close> is below 1 (the fourth check of \<^verbatim>\<open>Book.Validate\<close>, after the empty
  id, the empty name and the chapter count below 1); the error is of kind
  \<^verbatim>\<open>KindInvalidBook\<close>.
\<close>

theorem NewTable_rejects_order:
  "b \<in> set books \<Longrightarrow> Order b < 1 \<Longrightarrow>
     \<exists>e. NewTable lowerU books = Inl e \<and> Kind e = KindInvalidBook"
  unfolding NewTable_def by (rule addBooks_rejects)

theorem NewTable_rejects_order_witness:
  "\<exists>e. NewTable (\<lambda>s. s) [provBook, provBook\<lparr>Order := 0\<rparr>] = Inl e \<and> Kind e = KindInvalidBook"
  using NewTable_rejects_order
    [of "provBook\<lparr>Order := 0\<rparr>" "[provBook, provBook\<lparr>Order := 0\<rparr>]" "\<lambda>s. s"]
  by simp

section \<open>Numbers: \<^verbatim>\<open>Atoi\<close> and \<^verbatim>\<open>Itoa\<close>\<close>

lemma isDigit_range: "isDigit c \<Longrightarrow> 0 \<le> ord c - 48 \<and> ord c - 48 \<le> 9"
  by (simp add: isDigit_def)

lemma ord_digitChar: "0 \<le> n \<Longrightarrow> n < 10 \<Longrightarrow> ord (digitChar n) = 48 + n"
  by (simp add: ord_def digitChar_def)

lemma isDigit_digitChar: "0 \<le> n \<Longrightarrow> n < 10 \<Longrightarrow> isDigit (digitChar n)"
  by (simp add: isDigit_def ord_digitChar)

lemma digitsOf_digits: "0 \<le> n \<Longrightarrow> list_all isDigit (digitsOf n) \<and> digitsOf n \<noteq> []"
proof (induction n rule: digitsOf.induct)
  case (1 n)
  show ?case
  proof (cases "n < 10")
    case True
    with "1.prems" show ?thesis by (simp add: digitsOf.simps [of n] isDigit_digitChar)
  next
    case False
    then have "0 \<le> n div 10" by simp
    with "1.IH" False have "list_all isDigit (digitsOf (n div 10))" by simp
    moreover have "isDigit (digitChar (n mod 10))" by (rule isDigit_digitChar) simp_all
    ultimately show ?thesis using False by (simp add: digitsOf.simps [of n])
  qed
qed

lemma parseUintLoop_digitsOf:
  "0 \<le> n \<Longrightarrow> n \<le> maxUint64 \<Longrightarrow> parseUintLoop 0 (digitsOf n @ rest) = parseUintLoop n rest"
proof (induction n arbitrary: rest rule: digitsOf.induct)
  case (1 n)
  show ?case
  proof (cases "n < 10")
    case True
    with "1.prems" show ?thesis
      by (simp add: digitsOf.simps [of n] isDigit_digitChar ord_digitChar cutoff64_def maxUint64_def)
  next
    case False
    have d: "isDigit (digitChar (n mod 10))" by (rule isDigit_digitChar) simp_all
    have o: "ord (digitChar (n mod 10)) = 48 + n mod 10" by (rule ord_digitChar) simp_all
    have "parseUintLoop 0 (digitsOf n @ rest)
            = parseUintLoop 0 (digitsOf (n div 10) @ (digitChar (n mod 10) # rest))"
      using False by (simp add: digitsOf.simps [of n])
    also have "\<dots> = parseUintLoop (n div 10) (digitChar (n mod 10) # rest)"
      using "1.IH" [of "digitChar (n mod 10) # rest"] False "1.prems" by (simp add: maxUint64_def)
    also have "\<dots> = parseUintLoop n rest"
    proof -
      have lt: "n div 10 < cutoff64" using "1.prems" by (simp add: cutoff64_def maxUint64_def)
      have eq: "n div 10 * 10 + n mod 10 = n" by simp
      show ?thesis using "1.prems" d o lt eq by simp
    qed
    finally show ?thesis .
  qed
qed

lemma isDigit_not_sign: "isDigit c \<Longrightarrow> c \<noteq> CHR ''-'' \<and> c \<noteq> CHR ''+''"
  by (auto simp: isDigit_def ord_def)

lemma Atoi_Itoa: "0 \<le> n \<Longrightarrow> n \<le> maxInt \<Longrightarrow> Atoi (Itoa n) = Inr n"
proof -
  assume n: "0 \<le> n" "n \<le> maxInt"
  from digitsOf_digits [OF n(1)] obtain c cs where cs: "digitsOf n = c # cs" and c: "isDigit c"
    by (cases "digitsOf n") auto
  have "parseUintLoop 0 (digitsOf n) = Inr n"
    using parseUintLoop_digitsOf [of n "[]"] n by (simp add: maxInt_def maxUint64_def)
  then show ?thesis
    using n cs isDigit_not_sign [OF c]
    by (simp add: Atoi_def Itoa_def Let_def)
qed

lemma parseUintLoop_nonneg: "parseUintLoop a s = Inr u \<Longrightarrow> 0 \<le> a \<Longrightarrow> 0 \<le> u"
  by (induction a s rule: parseUintLoop.induct) (auto simp: isDigit_def split: if_splits)

lemma Atoi_range: "Atoi s = Inr n \<Longrightarrow> - maxInt - 1 \<le> n \<and> n \<le> maxInt"
  by (auto simp: Atoi_def Let_def maxInt_def split: if_splits sum.splits UintStop.splits
      dest: parseUintLoop_nonneg)

lemma foldl_step_ge: "list_all isDigit s \<Longrightarrow> 0 \<le> b \<Longrightarrow> b \<le> foldl step10 b s"
proof (induction s arbitrary: b)
  case Nil
  then show ?case by simp
next
  case (Cons c cs)
  from Cons.prems isDigit_range [of c] have "b \<le> step10 b c" "0 \<le> step10 b c"
    by (auto simp: step10_def)
  moreover from Cons have "step10 b c \<le> foldl step10 (step10 b c) cs"
    using \<open>0 \<le> step10 b c\<close> by simp
  ultimately show ?case by simp
qed

lemma parseUintLoop_all_digits:
  "list_all isDigit s \<Longrightarrow> 0 \<le> a \<Longrightarrow> a \<le> maxUint64 \<Longrightarrow>
     parseUintLoop a s =
       (if foldl step10 a s \<le> maxUint64 then Inr (foldl step10 a s) else Inl StopRange)"
proof (induction s arbitrary: a)
  case Nil
  then show ?case by simp
next
  case (Cons c cs)
  from Cons.prems have c: "isDigit c" and cs: "list_all isDigit cs" by simp_all
  note r = isDigit_range [OF c]
  have nn: "0 \<le> step10 a c" using r Cons.prems by (simp add: step10_def)
  have ge: "step10 a c \<le> foldl step10 (step10 a c) cs" by (rule foldl_step_ge [OF cs nn])
  have unfold: "parseUintLoop a (c # cs) =
      (if cutoff64 \<le> a \<or> maxUint64 < step10 a c then Inl StopRange
       else parseUintLoop (step10 a c) cs)"
    using c by (simp add: step10_def)
  show ?case
  proof (cases "cutoff64 \<le> a \<or> maxUint64 < step10 a c")
    case True
    then have "maxUint64 < step10 a c" using r by (auto simp: cutoff64_def maxUint64_def step10_def)
    with ge have "\<not> foldl step10 (step10 a c) cs \<le> maxUint64" by simp
    with True unfold show ?thesis by simp
  next
    case False
    then have "step10 a c \<le> maxUint64" by simp
    from Cons.IH [OF cs nn this] False unfold show ?thesis by simp
  qed
qed

section \<open>White space, trimming and fields\<close>

lemma isDigit_not_space:
  "isDigit c \<Longrightarrow> \<not> asciiSpace c \<and> \<not> isSpace2 c b \<and> \<not> isSpace3 c b d"
  by (auto simp: isDigit_def asciiSpace_def isSpace2_def isSpace3_def ord_def)

lemma spaceWidth_digit: "isDigit c \<Longrightarrow> spaceWidth (c # s) = 0"
  by (cases "c # s" rule: spaceWidth.cases) (auto simp: isDigit_not_space)

lemma spaceWidth_colon: "spaceWidth (CHR '':'' # s) = 0"
  by (cases "CHR '':'' # s" rule: spaceWidth.cases)
     (auto simp: asciiSpace_def isSpace2_def isSpace3_def)

lemma spaceWidth_space: "spaceWidth (CHR 0x20 # t) = 1"
  by (cases "CHR 0x20 # t" rule: spaceWidth.cases) (auto simp: asciiSpace_def)

lemma spaceWidth_append_space:
  "x \<noteq> [] \<Longrightarrow> spaceWidth (x @ CHR 0x20 # t) = spaceWidth x"
proof (cases x rule: spaceWidth.cases)
  case 1
  assume "x \<noteq> []"
  with 1 show ?thesis by simp
next
  case (2 a)
  then show ?thesis
    by (cases t) (auto simp: isSpace2_def isSpace3_def)
next
  case (3 a b)
  then show ?thesis by (auto simp: isSpace3_def ord_def)
next
  case (4 a b c s)
  then show ?thesis by simp
qed

lemma noSpace_digits: "list_all isDigit d \<Longrightarrow> noSpace (d @ r) = noSpace r"
  by (induction d) (auto simp: spaceWidth_digit)

lemma noSpace_colon: "noSpace (CHR '':'' # r) = noSpace r"
  by (simp add: spaceWidth_colon)

lemma noSpace_EnDash: "noSpace (EnDash @ r) = noSpace r"
proof -
  have a: "spaceWidth (CHR 0x9C # r) = 0"
    by (cases "CHR 0x9C # r" rule: spaceWidth.cases) (auto simp: asciiSpace_def isSpace2_def isSpace3_def)
  have b: "spaceWidth (CHR 0x80 # CHR 0x9C # r) = 0"
    by (cases "CHR 0x80 # CHR 0x9C # r" rule: spaceWidth.cases) (auto simp: asciiSpace_def isSpace2_def isSpace3_def)
  show ?thesis
    by (simp add: EnDash_def a b asciiSpace_def isSpace2_def isSpace3_def ord_def)
qed

lemma fieldsFrom_noSpace: "noSpace t \<Longrightarrow> fieldsFrom cur t = flush (cur @ t)"
proof (induction t arbitrary: cur)
  case Nil
  then show ?case by (simp add: fieldsFrom.simps [of cur "[]"])
next
  case (Cons c t)
  then have "fieldsFrom cur (c # t) = fieldsFrom (cur @ [c]) t"
    by (simp add: fieldsFrom.simps [of cur "c # t"])
  with Cons show ?case by simp
qed

lemma fieldsFrom_append_space:
  "fieldsFrom cur (x @ CHR 0x20 # t) = fieldsFrom cur x @ fieldsFrom [] t"
proof (induction cur x rule: fieldsFrom.induct)
  case (1 cur s)
  show ?case
  proof (cases "s = []")
    case True
    then show ?thesis
      by (simp add: fieldsFrom.simps [of cur "CHR 0x20 # t"] fieldsFrom.simps [of cur "[]"]
          spaceWidth_space)
  next
    case False
    note w = spaceWidth_append_space [OF False, of t]
    show ?thesis
    proof (cases "spaceWidth s = 0")
      case True
      with False w "1.IH"(2) show ?thesis
        by (simp add: fieldsFrom.simps [of cur "s @ CHR 0x20 # t"] fieldsFrom.simps [of cur s])
    next
      case nz: False
      have le: "spaceWidth s \<le> length s" by (rule spaceWidth_le)
      with False w nz "1.IH"(1) show ?thesis
        by (simp add: fieldsFrom.simps [of cur "s @ CHR 0x20 # t"] fieldsFrom.simps [of cur s])
    qed
  qed
qed

lemma fieldsFrom_trimLeft: "fieldsFrom [] (trimLeft s) = fieldsFrom [] s"
proof (induction s rule: trimLeft.induct)
  case (1 s)
  show ?case
  proof (cases "spaceWidth s = 0")
    case True
    then show ?thesis by (simp add: trimLeft.simps [of s])
  next
    case False
    then have "s \<noteq> []" by auto
    with False "1.IH" show ?thesis
      by (simp add: trimLeft.simps [of s] fieldsFrom.simps [of "[]" s] flush_def)
  qed
qed

lemma trimLeft_keeps_tail:
  "spaceWidth t = 0 \<Longrightarrow> \<exists>p. trimLeft (x @ CHR 0x20 # t) = p @ t"
proof (induction x rule: length_induct)
  case (1 x)
  show ?case
  proof (cases "x = []")
    case True
    have "trimLeft (CHR 0x20 # t) = trimLeft t"
      by (simp add: trimLeft.simps [of "CHR 0x20 # t"] spaceWidth_space)
    also have "\<dots> = t" using "1.prems" by (simp add: trimLeft.simps [of t])
    finally show ?thesis using True by simp
  next
    case False
    note w = spaceWidth_append_space [OF False, of t]
    show ?thesis
    proof (cases "spaceWidth x = 0")
      case True
      with w have "trimLeft (x @ CHR 0x20 # t) = (x @ [CHR 0x20]) @ t"
        by (simp add: trimLeft.simps [of "x @ CHR 0x20 # t"])
      then show ?thesis by blast
    next
      case nz: False
      have le: "spaceWidth x \<le> length x" by (rule spaceWidth_le)
      with nz False have "length (drop (spaceWidth x) x) < length x" by simp
      with "1.IH" "1.prems" obtain p where
        "trimLeft (drop (spaceWidth x) x @ CHR 0x20 # t) = p @ t" by blast
      with w nz le show ?thesis
        by (simp add: trimLeft.simps [of "x @ CHR 0x20 # t"])
    qed
  qed
qed

lemma spaceWidthEnd_digit: "s \<noteq> [] \<Longrightarrow> isDigit (last s) \<Longrightarrow> spaceWidthEnd s = 0"
proof -
  assume "s \<noteq> []" and d: "isDigit (last s)"
  then obtain c r where r: "rev s = c # r" and c: "c = last s"
    by (cases s rule: rev_cases) auto
  with d have "isDigit c" by simp
  then have "\<not> asciiSpace c" "\<And>b. \<not> isSpace2 b c" "\<And>a b. \<not> isSpace3 a b c"
    by (auto simp: isDigit_def asciiSpace_def isSpace2_def isSpace3_def ord_def)
  with r show ?thesis by (auto simp: spaceWidthEnd_def split: list.splits)
qed

lemma trimRight_digit: "s \<noteq> [] \<Longrightarrow> isDigit (last s) \<Longrightarrow> trimRight s = s"
  by (simp add: trimRight.simps [of s] spaceWidthEnd_digit)

lemma trimLeft_digit: "isDigit c \<Longrightarrow> trimLeft (c # s) = c # s"
  by (simp add: trimLeft.simps [of "c # s"] spaceWidth_digit)

section \<open>Replacing, splitting and the canonical tail\<close>

lemma ReplaceAll_absent: "c \<notin> set s \<Longrightarrow> ReplaceAll s [c] new = s"
  by (induction s) auto

lemma splitFrom_skip:
  "p \<notin> set a \<Longrightarrow> splitFrom cur (a @ r) (p # ps) = splitFrom (cur @ a) r (p # ps)"
  by (induction a arbitrary: cur) auto

lemma HasPrefix_append: "HasPrefix (p @ r) p"
  by (induction p) auto

lemma splitFrom_sep:
  "splitFrom cur ((p # ps) @ r) (p # ps) = cur # splitFrom [] r (p # ps)"
  using HasPrefix_append [of ps r] by simp

lemma Contains_absent: "p \<notin> set s \<Longrightarrow> \<not> Contains s (p # ps)"
  by (induction s) auto

lemma Contains_present: "p \<noteq> [] \<Longrightarrow> Contains (a @ p @ b) p"
proof (induction a)
  case Nil
  then show ?case using HasPrefix_append [of p b] by (cases p) auto
next
  case (Cons x xs)
  then show ?case by simp
qed

lemma BibleRef_String_canonTail:
  "BibleRef_String r = BibleRef.OSIS r @ CHR 0x20 # canonTail (Chapter r) (Verse r)"
  by (simp add: BibleRef_String_def canonTail_def split: option.splits)

lemma Itoa_digits: "0 \<le> n \<Longrightarrow> list_all isDigit (Itoa n) \<and> Itoa n \<noteq> []"
  by (simp add: Itoa_def digitsOf_digits)

lemma digits_set: "list_all isDigit d \<Longrightarrow> c \<in> set d \<Longrightarrow> isDigit c"
  by (simp add: list_all_iff)

lemma digits_no_punct:
  assumes "list_all isDigit d"
  shows "CHR '':'' \<notin> set d" "CHR ''-'' \<notin> set d" "CHR 0x20 \<notin> set d" "CHR 0xC3 \<notin> set d"
proof -
  have n: "\<not> isDigit (CHR '':'')" "\<not> isDigit (CHR ''-'')" "\<not> isDigit (CHR 0x20)"
    "\<not> isDigit (CHR 0xC3)"
    by (simp_all add: isDigit_def ord_def)
  show "CHR '':'' \<notin> set d" using digits_set [OF assms] n(1) by blast
  show "CHR ''-'' \<notin> set d" using digits_set [OF assms] n(2) by blast
  show "CHR 0x20 \<notin> set d" using digits_set [OF assms] n(3) by blast
  show "CHR 0xC3 \<notin> set d" using digits_set [OF assms] n(4) by blast
qed

lemma EnDash_no_punct:
  "CHR '':'' \<notin> set EnDash" "CHR ''-'' \<notin> set EnDash" "CHR 0x20 \<notin> set EnDash"
  by (simp_all add: EnDash_def)

text \<open>The verse segment of a rendering: one number, or two joined by \<open>EnDash\<close>.\<close>

lemma verse_segment:
  assumes "0 \<le> StartVerse v" "\<And>e. EndVerse v = Some e \<Longrightarrow> 0 \<le> e"
  shows "noSpace (VerseRange_String v)"
    and "VerseRange_String v \<noteq> []"
    and "isDigit (hd (VerseRange_String v))"
    and "isDigit (last (VerseRange_String v))"
    and "CHR '':'' \<notin> set (VerseRange_String v)"
    and "CHR ''-'' \<notin> set (VerseRange_String v)"
    and "CHR 0x20 \<notin> set (VerseRange_String v)"
proof -
  note s = Itoa_digits [OF assms(1)]
  then obtain c cs where cs: "Itoa (StartVerse v) = c # cs" and c: "isDigit c"
    by (cases "Itoa (StartVerse v)") auto
  show "noSpace (VerseRange_String v)"
  proof (cases "EndVerse v")
    case None
    then show ?thesis using s noSpace_digits [of "Itoa (StartVerse v)" "[]"]
      by (simp add: VerseRange_String_def)
  next
    case (Some e)
    note e = Itoa_digits [OF assms(2) [OF Some]]
    show ?thesis using Some s e noSpace_digits [of "Itoa e" "[]"]
      by (simp add: VerseRange_String_def noSpace_digits noSpace_EnDash)
  qed
  show "VerseRange_String v \<noteq> []"
    using s by (simp add: VerseRange_String_def split: option.splits)
  show "isDigit (hd (VerseRange_String v))"
    using cs c by (simp add: VerseRange_String_def split: option.splits)
  show "isDigit (last (VerseRange_String v))"
  proof (cases "EndVerse v")
    case None
    then show ?thesis using s by (simp add: VerseRange_String_def list_all_iff)
  next
    case (Some e)
    note e = Itoa_digits [OF assms(2) [OF Some]]
    then show ?thesis using Some by (simp add: VerseRange_String_def list_all_iff)
  qed
  show "CHR '':'' \<notin> set (VerseRange_String v)"
    using digits_no_punct(1) s assms(2) Itoa_digits EnDash_no_punct(1)
    by (auto simp: VerseRange_String_def split: option.splits)
  show "CHR ''-'' \<notin> set (VerseRange_String v)"
    using digits_no_punct(2) s assms(2) Itoa_digits EnDash_no_punct(2)
    by (auto simp: VerseRange_String_def split: option.splits)
  show "CHR 0x20 \<notin> set (VerseRange_String v)"
    using digits_no_punct(3) s assms(2) Itoa_digits EnDash_no_punct(3)
    by (auto simp: VerseRange_String_def split: option.splits)
qed

lemma NormalizeVerseRange_segment:
  assumes "0 \<le> StartVerse v" "\<And>e. EndVerse v = Some e \<Longrightarrow> 0 \<le> e"
  shows "NormalizeVerseRange (VerseRange_String v) = VerseRange_String v"
proof -
  note f = verse_segment [OF assms]
  from f(2,3) obtain c cs where cs: "VerseRange_String v = c # cs" and c: "isDigit c"
    by (cases "VerseRange_String v") auto
  have "TrimSpace (VerseRange_String v) = VerseRange_String v"
    unfolding TrimSpace_def using trimLeft_digit [OF c, of cs] trimRight_digit [OF f(2) f(4)] cs
    by simp
  then show ?thesis
    using f(6,7) by (simp add: NormalizeVerseRange_def Hyphen_def ReplaceAll_absent)
qed


lemma takeWhile_digits_colon:
  "list_all isDigit d \<Longrightarrow> takeWhile isDigit (d @ CHR '':'' # r) = d"
  by (induction d) (auto simp: isDigit_def ord_def)

lemma takeWhile_digits_all: "list_all isDigit d \<Longrightarrow> takeWhile isDigit d = d"
  by (induction d) auto

lemma parseTail_canonTail:
  assumes ch: "0 \<le> ch"
    and vs: "\<And>v. vr = Some v \<Longrightarrow> 0 \<le> StartVerse v \<and> (\<forall>e. EndVerse v = Some e \<longrightarrow> 0 \<le> e)"
  shows "parseTail (canonTail ch vr) = Inr (canonTail ch vr)"
proof -
  note d = Itoa_digits [OF ch]
  then obtain c cs where cs: "Itoa ch = c # cs" and c: "isDigit c"
    by (cases "Itoa ch") auto
  show ?thesis
  proof (cases vr)
    case None
    then show ?thesis
      using d cs c by (simp add: parseTail_def canonTail_def takeWhile_digits_all Let_def)
  next
    case (Some v)
    from vs [OF Some] have a: "0 \<le> StartVerse v" and b: "\<And>e. EndVerse v = Some e \<Longrightarrow> 0 \<le> e"
      by auto
    note f = verse_segment [OF a b]
    note n = NormalizeVerseRange_segment [OF a b]
    have tw: "takeWhile isDigit (Itoa ch @ CHR '':'' # VerseRange_String v) = Itoa ch"
      by (rule takeWhile_digits_colon) (simp add: d)
    have ne: "Itoa ch @ CHR '':'' # VerseRange_String v \<noteq> []" by simp
    have hd: "hd (Itoa ch @ CHR '':'' # VerseRange_String v) = c" using cs by simp
    show ?thesis
      unfolding parseTail_def canonTail_def Some
      using tw hd c f(2) n by (simp add: Let_def nth_append)
  qed
qed

lemma Split_colon_digits:
  "list_all isDigit d \<Longrightarrow> Split d '':'' = [d]"
  using splitFrom_skip [of "CHR '':''" d "[]" "[]" "[]"] digits_no_punct(1) [of d]
  by (simp add: Split_def)

lemma Split_colon_two:
  "list_all isDigit d \<Longrightarrow> CHR '':'' \<notin> set w \<Longrightarrow> Split (d @ CHR '':'' # w) '':'' = [d, w]"
proof -
  assume d: "list_all isDigit d" and w: "CHR '':'' \<notin> set w"
  have "splitFrom [] (d @ CHR '':'' # w) '':'' = splitFrom d (CHR '':'' # w) '':''"
    using splitFrom_skip [of "CHR '':''" d "[]" "CHR '':'' # w" "[]"] digits_no_punct(1) [OF d]
    by simp
  also have "\<dots> = d # splitFrom [] w '':''" by simp
  also have "splitFrom [] w '':'' = [w]"
    using splitFrom_skip [of "CHR '':''" w "[]" "[]" "[]"] w by simp
  finally show ?thesis by (simp add: Split_def)
qed

lemma Split_EnDash_two:
  "list_all isDigit a \<Longrightarrow> list_all isDigit b \<Longrightarrow> Split (a @ EnDash @ b) EnDash = [a, b]"
proof -
  assume a: "list_all isDigit a" and b: "list_all isDigit b"
  obtain ps where E: "EnDash = CHR 0xC3 # ps" by (simp add: EnDash_def)
  have "splitFrom [] (a @ EnDash @ b) EnDash = splitFrom a (EnDash @ b) EnDash"
    using splitFrom_skip [of "CHR 0xC3" a "[]" "EnDash @ b" ps] digits_no_punct(4) [OF a] E
    by simp
  also have "\<dots> = a # splitFrom [] b EnDash"
    using splitFrom_sep [of a "CHR 0xC3" ps b] E by simp
  also have "splitFrom [] b EnDash = [b]"
    using splitFrom_skip [of "CHR 0xC3" b "[]" "[]" ps] digits_no_punct(4) [OF b] E by simp
  finally show ?thesis by (simp add: Split_def)
qed

lemma parseChapterVerse_canonTail:
  assumes ch: "0 \<le> ch" "ch \<le> maxInt"
    and vs: "\<And>v. vr = Some v \<Longrightarrow> 0 \<le> StartVerse v \<and> StartVerse v \<le> maxInt
                 \<and> (\<forall>e. EndVerse v = Some e \<longrightarrow> 0 \<le> e \<and> e \<le> maxInt)"
  shows "parseChapterVerse (canonTail ch vr) = Inr (ch, vr)"
proof -
  note d = Itoa_digits [OF ch(1)]
  note A = Atoi_Itoa [OF ch]
  show ?thesis
  proof (cases vr)
    case None
    then show ?thesis
      using d A by (simp add: parseChapterVerse_def canonTail_def Split_colon_digits)
  next
    case (Some v)
    from vs [OF Some] have a: "0 \<le> StartVerse v" "StartVerse v \<le> maxInt"
      and b: "\<And>e. EndVerse v = Some e \<Longrightarrow> 0 \<le> e" "\<And>e. EndVerse v = Some e \<Longrightarrow> e \<le> maxInt"
      by auto
    note f = verse_segment [OF a(1) b(1)]
    note n = NormalizeVerseRange_segment [OF a(1) b(1)]
    note sd = Itoa_digits [OF a(1)]
    have sp: "Split (Itoa ch @ CHR '':'' # VerseRange_String v) '':''
                = [Itoa ch, VerseRange_String v]"
      by (rule Split_colon_two) (simp_all add: d f(5))
    show ?thesis
    proof (cases "EndVerse v")
      case None
      have nc: "\<not> Contains (Itoa (StartVerse v)) EnDash"
        using Contains_absent [of "CHR 0xC3" "Itoa (StartVerse v)"] digits_no_punct(4) sd
        by (simp add: EnDash_def)
      have v: "v = \<lparr>StartVerse = StartVerse v, EndVerse = None\<rparr>" using None by simp
      have vs: "VerseRange_String v = Itoa (StartVerse v)"
        using None by (simp add: VerseRange_String_def)
      show ?thesis
        unfolding parseChapterVerse_def canonTail_def Some
        using sp A n nc vs Atoi_Itoa [OF a] v by (simp add: Let_def)
    next
      case (Some e)
      note ed = Itoa_digits [OF b(1) [OF Some]]
      have vs: "VerseRange_String v = Itoa (StartVerse v) @ EnDash @ Itoa e"
        using Some by (simp add: VerseRange_String_def)
      have c: "Contains (Itoa (StartVerse v) @ EnDash @ Itoa e) EnDash"
        by (rule Contains_present) (simp add: EnDash_def)
      have s2: "Split (Itoa (StartVerse v) @ EnDash @ Itoa e) EnDash = [Itoa (StartVerse v), Itoa e]"
        by (rule Split_EnDash_two) (simp_all add: sd ed)
      have v: "v = \<lparr>StartVerse = StartVerse v, EndVerse = Some e\<rparr>" using Some by simp
      have pv: "parseVerseRange (VerseRange_String v) [Itoa (StartVerse v), Itoa e] = Inr v"
        using Atoi_Itoa [OF a] Atoi_Itoa [OF b(1) [OF Some] b(2) [OF Some]] v
        by (simp add: parseVerseRange_def)
      show ?thesis
        unfolding parseChapterVerse_def canonTail_def \<open>vr = Some v\<close>
        using sp A n c s2 vs pv by (simp add: Let_def)
    qed
  qed
qed

section \<open>What a successful parse tells\<close>

lemma Validate_None:
  "BibleRef_Validate r tbl = None \<Longrightarrow>
     (\<exists>book. ByOsis tbl (BibleRef.OSIS r) = Some book \<and> 1 \<le> Chapter r \<and> Chapter r \<le> Chapters book)
     \<and> (\<forall>v. Verse r = Some v \<longrightarrow>
            1 \<le> StartVerse v \<and> (\<forall>e. EndVerse v = Some e \<longrightarrow> StartVerse v \<le> e))"
  by (auto simp: BibleRef_Validate_def split: option.splits if_splits)

lemma Parse_Inr: "Parse lowerU s tbl = Inr r \<longleftrightarrow> doParse lowerU s tbl = Inr r"
  by (auto simp: Parse_def split: sum.splits)

lemma doParse_Inr:
  "doParse lowerU s tbl = Inr r \<longleftrightarrow>
     parseRefString lowerU s tbl = Inr r \<and> BibleRef_Validate r tbl = None"
  by (auto simp: doParse_def split: sum.splits option.splits)

lemma parseRefString_Inr:
  "parseRefString lowerU s tbl = Inr r \<Longrightarrow>
     \<exists>t. parseChapterVerse t = Inr (Chapter r, Verse r)"
  by (auto simp: parseRefString_def Let_def split: if_splits sum.splits option.splits prod.splits)

lemma parseVerseRange_range:
  "parseVerseRange s parts = Inr v \<Longrightarrow>
     StartVerse v \<le> maxInt \<and> (\<forall>e. EndVerse v = Some e \<longrightarrow> e \<le> maxInt)"
  by (auto simp: parseVerseRange_def split: if_splits sum.splits dest: Atoi_range)

lemma parseChapterVerse_range:
  "parseChapterVerse t = Inr (ch, vr) \<Longrightarrow>
     ch \<le> maxInt \<and>
     (\<forall>v. vr = Some v \<longrightarrow> StartVerse v \<le> maxInt \<and> (\<forall>e. EndVerse v = Some e \<longrightarrow> e \<le> maxInt))"
  by (auto simp: parseChapterVerse_def Let_def split: if_splits sum.splits
      dest: Atoi_range parseVerseRange_range)

lemma Fields_rendering:
  assumes T: "T \<noteq> []" "noSpace T" "isDigit (last T)"
  shows "TrimSpace (X @ CHR 0x20 # T) \<noteq> []"
    and "Fields (TrimSpace (X @ CHR 0x20 # T)) = Fields X @ [T]"
proof -
  from T(1,2) have w: "spaceWidth T = 0" by (cases T) auto
  from trimLeft_keeps_tail [OF w, of X] obtain p where p: "trimLeft (X @ CHR 0x20 # T) = p @ T"
    by blast
  have ne: "p @ T \<noteq> []" using T(1) by simp
  have l: "isDigit (last (p @ T))" using T(1,3) by simp
  have tr: "TrimSpace (X @ CHR 0x20 # T) = trimLeft (X @ CHR 0x20 # T)"
    unfolding TrimSpace_def p by (rule trimRight_digit [OF ne l])
  show "TrimSpace (X @ CHR 0x20 # T) \<noteq> []" using tr p ne by simp
  have "Fields (TrimSpace (X @ CHR 0x20 # T)) = fieldsFrom [] (X @ CHR 0x20 # T)"
    unfolding Fields_def tr by (rule fieldsFrom_trimLeft)
  also have "\<dots> = fieldsFrom [] X @ fieldsFrom [] T" by (rule fieldsFrom_append_space)
  also have "fieldsFrom [] T = [T]" using fieldsFrom_noSpace [OF T(2), of "[]"] T(1)
    by (simp add: flush_def)
  finally show "Fields (TrimSpace (X @ CHR 0x20 # T)) = Fields X @ [T]"
    by (simp add: Fields_def)
qed

lemma canonTail_shape:
  assumes ch: "0 \<le> ch"
    and vs: "\<And>v. vr = Some v \<Longrightarrow> 0 \<le> StartVerse v \<and> (\<forall>e. EndVerse v = Some e \<longrightarrow> 0 \<le> e)"
  shows "canonTail ch vr \<noteq> []" "noSpace (canonTail ch vr)" "isDigit (last (canonTail ch vr))"
proof -
  note d = Itoa_digits [OF ch]
  show "canonTail ch vr \<noteq> []" using d by (simp add: canonTail_def)
  show "noSpace (canonTail ch vr)"
  proof (cases vr)
    case None
    then show ?thesis using d noSpace_digits [of "Itoa ch" "[]"] by (simp add: canonTail_def)
  next
    case (Some v)
    from vs [OF Some] have "noSpace (VerseRange_String v)" by (intro verse_segment) auto
    then show ?thesis using Some d by (simp add: canonTail_def noSpace_digits spaceWidth_colon)
  qed
  show "isDigit (last (canonTail ch vr))"
  proof (cases vr)
    case None
    then show ?thesis using d by (simp add: canonTail_def list_all_iff)
  next
    case (Some v)
    from vs [OF Some] have "isDigit (last (VerseRange_String v))" "VerseRange_String v \<noteq> []"
      by (intro verse_segment; auto)+
    then show ?thesis using Some by (simp add: canonTail_def)
  qed
qed

section \<open>The alias map that \<^verbatim>\<open>NewTable\<close> builds\<close>

lemma ByAlias_foldl_addAlias:
  "ByAlias (foldl (addAlias lowerU b) t as) k =
     (if k \<in> NormalizeAlias lowerU ` set as then Some (Book.OSIS b) else ByAlias t k)"
  by (induction as arbitrary: t) (auto simp: addAlias_def)

lemma ByOsis_foldl_addAlias: "ByOsis (foldl (addAlias lowerU b) t as) = ByOsis t"
  by (induction as arbitrary: t) (auto simp: addAlias_def)

lemma ByAlias_addBook:
  "ByAlias (addBook lowerU tbl b) k =
     (if k \<in> NormalizeAlias lowerU ` set (Aliases b) then Some (Book.OSIS b)
      else if k = NormalizeAlias lowerU (Book.OSIS b) \<and> ByAlias tbl k = None
           then Some (Book.OSIS b)
      else ByAlias tbl k)"
  by (auto simp: addBook_def Let_def contains_def ByAlias_foldl_addAlias)

lemma ByOsis_addBook: "ByOsis (addBook lowerU tbl b) = (ByOsis tbl)(Book.OSIS b \<mapsto> b)"
  by (simp add: addBook_def Let_def ByOsis_foldl_addAlias)

lemma addBook_keys_present:
  "k \<in> bookKeys lowerU b \<or> ByAlias tbl k \<noteq> None \<Longrightarrow> ByAlias (addBook lowerU tbl b) k \<noteq> None"
  by (auto simp: ByAlias_addBook bookKeys_def)

lemma addBook_values:
  "ByAlias (addBook lowerU tbl b) k = Some v \<Longrightarrow>
     ByAlias tbl k = Some v \<or> (k \<in> bookKeys lowerU b \<and> v = Book.OSIS b)"
  by (auto simp: ByAlias_addBook bookKeys_def split: if_splits)

lemma addBooks_keys_present:
  "addBooks lowerU tbl books = Inr tbl' \<Longrightarrow>
     ByAlias tbl k \<noteq> None \<or> (\<exists>b\<in>set books. k \<in> bookKeys lowerU b) \<Longrightarrow>
     ByAlias tbl' k \<noteq> None"
proof (induction books arbitrary: tbl)
  case Nil
  then show ?case by simp
next
  case (Cons x xs)
  from Cons.prems(1) have r: "addBooks lowerU (addBook lowerU tbl x) xs = Inr tbl'"
    by (simp split: option.splits)
  from Cons.prems(2) have
    "ByAlias (addBook lowerU tbl x) k \<noteq> None \<or> (\<exists>b\<in>set xs. k \<in> bookKeys lowerU b)"
    using addBook_keys_present [of k lowerU x tbl] by auto
  with Cons.IH [OF r] show ?case .
qed

lemma addBooks_values:
  "addBooks lowerU tbl books = Inr tbl' \<Longrightarrow> ByAlias tbl' k = Some v \<Longrightarrow>
     ByAlias tbl k = Some v \<or> (\<exists>b\<in>set books. k \<in> bookKeys lowerU b \<and> v = Book.OSIS b)"
proof (induction books arbitrary: tbl)
  case Nil
  then show ?case by simp
next
  case (Cons x xs)
  from Cons.prems(1) have r: "addBooks lowerU (addBook lowerU tbl x) xs = Inr tbl'"
    by (simp split: option.splits)
  from Cons.IH [OF r Cons.prems(2)] show ?case
    using addBook_values [of lowerU tbl x k v] by auto
qed

text \<open>
  C2, as amended. For every list of books that \<^verbatim>\<open>NewTable\<close> accepts, the normalised form
  of every alias of every book, and of every book's own id, is a key of \<^verbatim>\<open>ByAlias\<close> (none
  is left out), and the key maps to the id of a book of the list that has this key among
  its normalised aliases and id; when every book of the list that has the key carries the
  same id, that id is the value. (When two books share a key, one of them gets it: an
  alias of a later book overwrites, and a book's own id never replaces a key that is
  already there.)
\<close>

theorem NewTable_keys:
  assumes "NewTable lowerU books = Inr tbl" "b \<in> set books" "k \<in> bookKeys lowerU b"
  shows "(\<exists>b'\<in>set books. k \<in> bookKeys lowerU b' \<and> ByAlias tbl k = Some (Book.OSIS b'))
         \<and> ((\<forall>b'\<in>set books. k \<in> bookKeys lowerU b' \<longrightarrow> Book.OSIS b' = Book.OSIS b)
              \<longrightarrow> ByAlias tbl k = Some (Book.OSIS b))"
proof -
  from assms(1) have a: "addBooks lowerU \<lparr>ByOsis = Map.empty, ByAlias = Map.empty\<rparr> books = Inr tbl"
    by (simp add: NewTable_def)
  from addBooks_keys_present [OF a, of k] assms(2,3) obtain v where v: "ByAlias tbl k = Some v"
    by auto
  from addBooks_values [OF a v] obtain b' where
    b': "b' \<in> set books" "k \<in> bookKeys lowerU b'" "v = Book.OSIS b'" by auto
  with v show ?thesis by auto
qed

theorem NewTable_keys_witness:
  "ByAlias dupTable ''matthew'' = Some ''Matt'' \<and> ByAlias dupTable ''proverbs'' = Some ''Prov''"
proof -
  have m: "dupMatt \<in> set booksWithDuplicates" "dupProv \<in> set booksWithDuplicates"
    by (simp_all add: booksWithDuplicates_def)
  have k: "''matthew'' \<in> bookKeys (\<lambda>s. s) dupMatt" "''matthew'' \<notin> bookKeys (\<lambda>s. s) dupProv"
    "''proverbs'' \<in> bookKeys (\<lambda>s. s) dupProv" "''proverbs'' \<notin> bookKeys (\<lambda>s. s) dupMatt"
    by code_simp+
  have o: "Book.OSIS dupMatt = ''Matt''" "Book.OSIS dupProv = ''Prov''"
    by (simp_all add: dupMatt_def dupProv_def)
  from NewTable_keys [OF NewTable_booksWithDuplicates m(1) k(1)] k(2) o
  have "ByAlias dupTable ''matthew'' = Some ''Matt''" by (auto simp: booksWithDuplicates_def)
  moreover from NewTable_keys [OF NewTable_booksWithDuplicates m(2) k(3)] k(4) o
  have "ByAlias dupTable ''proverbs'' = Some ''Prov''" by (auto simp: booksWithDuplicates_def)
  ultimately show ?thesis by simp
qed

theorem NewTable_keys_counterexample:
  "NewTable (\<lambda>s. s) booksWithDuplicates = Inr dupTable
   \<and> dupProv \<in> set booksWithDuplicates
   \<and> ''prov'' \<in> set (Aliases dupProv)
   \<and> NormalizeAlias (\<lambda>s. s) ''prov'' = ''prov''
   \<and> Book.OSIS dupProv = ''Prov''
   \<and> ByAlias dupTable ''prov'' = Some ''Matt''"
proof -
  have "NormalizeAlias (\<lambda>s. s) ''prov'' = ''prov''" by code_simp
  moreover have "ByAlias dupTable ''prov'' = Some ''Matt''" by code_simp
  ultimately show ?thesis
    using NewTable_booksWithDuplicates by (simp add: booksWithDuplicates_def dupProv_def)
qed

section \<open>Validation\<close>

text \<open>
  C6. For every reference whose id is in the table, with the book's chapter count \<open>N\<close>:
  \<^verbatim>\<open>Validate\<close> returns an error of kind \<^verbatim>\<open>KindInvalidChapter\<close> exactly when the chapter is
  below 1 or above \<open>N\<close>; the message of that error holds the book's display name; and
  \<^verbatim>\<open>Parse\<close> never returns such a reference.
\<close>

theorem Validate_chapter_bounds:
  assumes "ByOsis tbl (BibleRef.OSIS r) = Some book"
  shows "((\<exists>e. BibleRef_Validate r tbl = Some e \<and> Kind e = KindInvalidChapter)
            \<longleftrightarrow> (Chapter r < 1 \<or> Chapters book < Chapter r))
         \<and> (Chapter r < 1 \<or> Chapters book < Chapter r \<longrightarrow>
              BibleRef_Validate r tbl =
                Some (BibleRefError KindInvalidChapter
                        (Some (''invalid chapter number '' @ Itoa (Chapter r) @ '' for book ''
                               @ Name book))
                        ErrInvalidChapter NoCause)
              \<and> Parse lowerU s tbl \<noteq> Inr r)"
proof -
  have "Parse lowerU s tbl \<noteq> Inr r" if "Chapter r < 1 \<or> Chapters book < Chapter r"
  proof
    assume "Parse lowerU s tbl = Inr r"
    then have "BibleRef_Validate r tbl = None" by (simp add: Parse_Inr doParse_Inr)
    from Validate_None [OF this] assms that show False by auto
  qed
  then show ?thesis
    using assms by (auto simp: BibleRef_Validate_def split: option.splits if_splits)
qed

theorem Validate_chapter_bounds_witness:
  "BibleRef_Validate \<lparr>OSIS = ''Prov'', Chapter = 0, Verse = None\<rparr> provTable
     = Some (BibleRefError KindInvalidChapter
               (Some ''invalid chapter number 0 for book Proverbs'') ErrInvalidChapter NoCause)
   \<and> BibleRef_Validate \<lparr>OSIS = ''Prov'', Chapter = 32, Verse = None\<rparr> provTable
     = Some (BibleRefError KindInvalidChapter
               (Some ''invalid chapter number 32 for book Proverbs'') ErrInvalidChapter NoCause)
   \<and> BibleRef_Validate \<lparr>OSIS = ''Prov'', Chapter = 31, Verse = None\<rparr> provTable = None
   \<and> Parse (\<lambda>s. s) ''Prov 32'' provTable
     = Inl (BibleRefError KindParse (Some ''failed to parse reference string: Prov 32'')
              ErrBibleRefParseFailed
              (RefCause (BibleRefError KindInvalidChapter
                 (Some ''invalid chapter number 32 for book Proverbs'') ErrInvalidChapter NoCause)))
   \<and> Parse (\<lambda>s. s) ''Prov 0'' provTable
     = Inl (BibleRefError KindParse (Some ''failed to parse reference string: Prov 0'')
              ErrBibleRefParseFailed
              (RefCause (BibleRefError KindInvalidChapter
                 (Some ''invalid chapter number 0 for book Proverbs'') ErrInvalidChapter NoCause)))
   \<and> Parse (\<lambda>s. s) ''Prov 31'' provTable = Inr \<lparr>OSIS = ''Prov'', Chapter = 31, Verse = None\<rparr>"
proof -
  have b: "ByOsis provTable ''Prov'' = Some provBook" by code_simp
  have n: "Name provBook = ''Proverbs''" "Chapters provBook = 31" by (simp_all add: provBook_def)
  have i: "Itoa 0 = ''0''" "Itoa 32 = ''32''" by code_simp+
  have v0: "BibleRef_Validate \<lparr>OSIS = ''Prov'', Chapter = 0, Verse = None\<rparr> provTable
     = Some (BibleRefError KindInvalidChapter
               (Some ''invalid chapter number 0 for book Proverbs'') ErrInvalidChapter NoCause)"
    using Validate_chapter_bounds
      [of provTable "\<lparr>OSIS = ''Prov'', Chapter = 0, Verse = None\<rparr>" provBook] b n i
    by simp
  have v32: "BibleRef_Validate \<lparr>OSIS = ''Prov'', Chapter = 32, Verse = None\<rparr> provTable
     = Some (BibleRefError KindInvalidChapter
               (Some ''invalid chapter number 32 for book Proverbs'') ErrInvalidChapter NoCause)"
    using Validate_chapter_bounds
      [of provTable "\<lparr>OSIS = ''Prov'', Chapter = 32, Verse = None\<rparr>" provBook] b n i
    by simp
  have v31: "BibleRef_Validate \<lparr>OSIS = ''Prov'', Chapter = 31, Verse = None\<rparr> provTable = None"
    by code_simp
  have p32: "Parse (\<lambda>s. s) ''Prov 32'' provTable
     = Inl (BibleRefError KindParse (Some ''failed to parse reference string: Prov 32'')
              ErrBibleRefParseFailed
              (RefCause (BibleRefError KindInvalidChapter
                 (Some ''invalid chapter number 32 for book Proverbs'') ErrInvalidChapter NoCause)))"
    by code_simp
  have p0: "Parse (\<lambda>s. s) ''Prov 0'' provTable
     = Inl (BibleRefError KindParse (Some ''failed to parse reference string: Prov 0'')
              ErrBibleRefParseFailed
              (RefCause (BibleRefError KindInvalidChapter
                 (Some ''invalid chapter number 0 for book Proverbs'') ErrInvalidChapter NoCause)))"
    by code_simp
  have p31: "Parse (\<lambda>s. s) ''Prov 31'' provTable
               = Inr \<lparr>OSIS = ''Prov'', Chapter = 31, Verse = None\<rparr>"
    by code_simp
  from v0 v32 v31 p32 p0 p31 show ?thesis by blast
qed

text \<open>
  C7, as amended. For every reference with a verse range whose id is in the table and
  whose chapter lies within the book's bounds (the checks \<^verbatim>\<open>Validate\<close> makes first):
  validation fails with \<^verbatim>\<open>KindInvalidVerse\<close> whenever the end verse is below the start
  verse; it succeeds when the start verse is at least 1 and the end verse is not below it;
  and \<^verbatim>\<open>parseVerseRange\<close> yields the two numbers it is given, as 10 and 20 for the parts
  \<^verbatim>\<open>10\<close> and \<^verbatim>\<open>20\<close>.
\<close>

theorem Validate_range_direction:
  assumes "ByOsis tbl (BibleRef.OSIS r) = Some book"
    and "1 \<le> Chapter r" "Chapter r \<le> Chapters book"
    and "Verse r = Some \<lparr>StartVerse = a, EndVerse = Some e\<rparr>"
  shows "(e < a \<longrightarrow> (\<exists>err. BibleRef_Validate r tbl = Some err \<and> Kind err = KindInvalidVerse))
         \<and> (1 \<le> a \<and> a \<le> e \<longrightarrow> BibleRef_Validate r tbl = None)
         \<and> (0 \<le> a \<and> a \<le> maxInt \<and> 0 \<le> e \<and> e \<le> maxInt \<longrightarrow>
              parseVerseRange str [Itoa a, Itoa e] = Inr \<lparr>StartVerse = a, EndVerse = Some e\<rparr>)"
  using assms by (auto simp: BibleRef_Validate_def parseVerseRange_def Atoi_Itoa)

theorem Validate_range_direction_witness:
  "(\<exists>err. BibleRef_Validate
            \<lparr>OSIS = ''Prov'', Chapter = 1,
               Verse = Some \<lparr>StartVerse = 20, EndVerse = Some 10\<rparr>\<rparr> provTable = Some err
          \<and> Kind err = KindInvalidVerse)
   \<and> BibleRef_Validate
        \<lparr>OSIS = ''Prov'', Chapter = 1,
           Verse = Some \<lparr>StartVerse = 10, EndVerse = Some 20\<rparr>\<rparr> provTable = None
   \<and> parseVerseRange (''10'' @ EnDash @ ''20'') [''10'', ''20''] = Inr \<lparr>StartVerse = 10, EndVerse = Some 20\<rparr>"
proof -
  have b: "ByOsis provTable ''Prov'' = Some provBook" by code_simp
  have n: "Chapters provBook = 31" by (simp add: provBook_def)
  have i: "Itoa 10 = ''10''" "Itoa 20 = ''20''" by code_simp+
  from Validate_range_direction
    [of provTable "\<lparr>OSIS = ''Prov'', Chapter = 1,
                     Verse = Some \<lparr>StartVerse = 20, EndVerse = Some 10\<rparr>\<rparr>" provBook 20 10]
    b n
  have 1: "\<exists>err. BibleRef_Validate
            \<lparr>OSIS = ''Prov'', Chapter = 1,
               Verse = Some \<lparr>StartVerse = 20, EndVerse = Some 10\<rparr>\<rparr> provTable = Some err
          \<and> Kind err = KindInvalidVerse"
    by simp
  from Validate_range_direction
    [of provTable "\<lparr>OSIS = ''Prov'', Chapter = 1,
                     Verse = Some \<lparr>StartVerse = 10, EndVerse = Some 20\<rparr>\<rparr>" provBook 10 20
      "''10'' @ EnDash @ ''20''"]
    b n i
  have 2: "BibleRef_Validate
        \<lparr>OSIS = ''Prov'', Chapter = 1,
           Verse = Some \<lparr>StartVerse = 10, EndVerse = Some 20\<rparr>\<rparr> provTable = None
     \<and> parseVerseRange (''10'' @ EnDash @ ''20'') [''10'', ''20''] = Inr \<lparr>StartVerse = 10, EndVerse = Some 20\<rparr>"
    by (simp add: maxInt_def)
  from 1 2 show ?thesis by blast
qed

theorem Validate_range_direction_counterexample:
  "BibleRef_Validate
      \<lparr>OSIS = ''Prov'', Chapter = 32,
         Verse = Some \<lparr>StartVerse = 20, EndVerse = Some 10\<rparr>\<rparr> provTable
     = Some (BibleRefError KindInvalidChapter
               (Some ''invalid chapter number 32 for book Proverbs'') ErrInvalidChapter NoCause)
   \<and> doParse (\<lambda>s. s) ''Prov 32:20-10'' provTable
     = Inl (BibleRefError KindInvalidChapter
              (Some ''invalid chapter number 32 for book Proverbs'') ErrInvalidChapter NoCause)"
  by code_simp

section \<open>Unknown books and the error that \<^verbatim>\<open>Parse\<close> returns\<close>

lemma fieldsFrom_Nil: "fieldsFrom [] [] = []"
  by (simp add: fieldsFrom.simps [of "[]" "[]"] flush_def)

text \<open>
  C3, as amended. For every table and every input that is otherwise well formed (at least
  two fields, and a last field that \<^verbatim>\<open>parseTail\<close> accepts) whose head resolves neither
  through the alias map nor as an id: \<^verbatim>\<open>parseRefString\<close> and \<^verbatim>\<open>doParse\<close> fail with an error
  of kind \<^verbatim>\<open>KindUnknownBook\<close>, and \<^verbatim>\<open>Parse\<close> fails with an error of kind \<^verbatim>\<open>KindParse\<close> whose
  cause is that error.
\<close>

theorem Parse_unknown_book:
  assumes "2 \<le> length (Fields (TrimSpace s))"
    and "parseTail (last (Fields (TrimSpace s))) = Inr t"
    and "lookupBook tbl (NormalizeAlias lowerU (Join (butlast (Fields (TrimSpace s))) '' ''))
           = None"
  shows "\<exists>e. Kind e = KindUnknownBook
            \<and> parseRefString lowerU s tbl = Inl e
            \<and> doParse lowerU s tbl = Inl e
            \<and> Parse lowerU s tbl =
                Inl (BibleRefError KindParse (Some (''failed to parse reference string: '' @ s))
                       ErrBibleRefParseFailed (RefCause e))"
proof -
  from assms(1) have "TrimSpace s \<noteq> []" by (auto simp: Fields_def fieldsFrom_Nil)
  with assms show ?thesis
    by (simp add: parseRefString_def doParse_def Parse_def Let_def)
qed

theorem Parse_unknown_book_witness:
  "\<exists>e. Kind e = KindUnknownBook
      \<and> parseRefString (\<lambda>s. s) ''Unknown 1:1'' provTable = Inl e
      \<and> doParse (\<lambda>s. s) ''Unknown 1:1'' provTable = Inl e
      \<and> Parse (\<lambda>s. s) ''Unknown 1:1'' provTable =
          Inl (BibleRefError KindParse (Some ''failed to parse reference string: Unknown 1:1'')
                 ErrBibleRefParseFailed (RefCause e))"
proof -
  have 1: "2 \<le> length (Fields (TrimSpace ''Unknown 1:1''))" by code_simp
  have 2: "parseTail (last (Fields (TrimSpace ''Unknown 1:1''))) = Inr ''1:1''" by code_simp
  have 3: "lookupBook provTable
             (NormalizeAlias (\<lambda>s. s) (Join (butlast (Fields (TrimSpace ''Unknown 1:1''))) '' ''))
           = None"
    by code_simp
  from Parse_unknown_book [OF 1 2 3] show ?thesis by simp
qed

theorem Parse_unknown_book_counterexample:
  "lookupBook provTable (NormalizeAlias (\<lambda>s. s) ''Unknown'') = None
   \<and> Parse (\<lambda>s. s) ''Unknown 1:1'' provTable =
       Inl (BibleRefError KindParse (Some ''failed to parse reference string: Unknown 1:1'')
              ErrBibleRefParseFailed
              (RefCause (BibleRefError KindUnknownBook (Some ''unknown book: unknown'')
                           ErrInvalidOSISCode NoCause)))
   \<and> Kind (BibleRefError KindParse (Some ''failed to parse reference string: Unknown 1:1'')
              ErrBibleRefParseFailed
              (RefCause (BibleRefError KindUnknownBook (Some ''unknown book: unknown'')
                           ErrInvalidOSISCode NoCause))) \<noteq> KindUnknownBook"
  by code_simp

section \<open>The verse-range separator\<close>

text \<open>
  C5. The canonical rendering of the reference Prov 31:10-31 (\<^verbatim>\<open>String\<close>, and
  \<^verbatim>\<open>Format\<close> with \<^verbatim>\<open>FormatCanonical\<close>) is \<^verbatim>\<open>Prov 31:10\<close>, the eight bytes of the constant
  \<^verbatim>\<open>util.EnDash\<close> as the source file holds it, and \<^verbatim>\<open>31\<close>; it is not the string with the
  three bytes of the en dash U+2013 that the claim and the tests expect.
\<close>

theorem String_range_separator:
  "BibleRef_String
      \<lparr>OSIS = ''Prov'', Chapter = 31, Verse = Some \<lparr>StartVerse = 10, EndVerse = Some 31\<rparr>\<rparr>
     = ''Prov 31:10''
       @ [CHR 0xC3, CHR 0xA2, CHR 0xE2, CHR 0x82, CHR 0xAC, CHR 0xE2, CHR 0x80, CHR 0x9C]
       @ ''31''
   \<and> BibleRef_Format
      \<lparr>OSIS = ''Prov'', Chapter = 31, Verse = Some \<lparr>StartVerse = 10, EndVerse = Some 31\<rparr>\<rparr>
      FormatCanonical None
     = Some (''Prov 31:10''
       @ [CHR 0xC3, CHR 0xA2, CHR 0xE2, CHR 0x82, CHR 0xAC, CHR 0xE2, CHR 0x80, CHR 0x9C]
       @ ''31'')
   \<and> BibleRef_String
      \<lparr>OSIS = ''Prov'', Chapter = 31, Verse = Some \<lparr>StartVerse = 10, EndVerse = Some 31\<rparr>\<rparr>
     \<noteq> ''Prov 31:10'' @ enDashRune @ ''31''"
  by code_simp

text \<open>
  C4. With a table that resolves the head \<^verbatim>\<open>Book\<close>, \<^verbatim>\<open>Parse\<close> accepts \<^verbatim>\<open>Book 1:1-5\<close>
  written with a hyphen and returns chapter 1, verses 1 to 5; written with the en dash
  U+2013 the same input is refused, with a \<^verbatim>\<open>KindInvalidVerse\<close> cause, and no table and no
  lower-casing makes \<^verbatim>\<open>Parse\<close> accept it: the separator the parser looks for is the
  constant \<^verbatim>\<open>util.EnDash\<close>, which is not that character.
\<close>

theorem Parse_dash_variants:
  "NewTable (\<lambda>s. s) [bookBook] = Inr bookTable
   \<and> Parse (\<lambda>s. s) ''Book 1:1-5'' bookTable
     = Inr \<lparr>OSIS = ''Book'', Chapter = 1, Verse = Some \<lparr>StartVerse = 1, EndVerse = Some 5\<rparr>\<rparr>
   \<and> Parse (\<lambda>s. s) (''Book 1:1'' @ enDashRune @ ''5'') bookTable
     = Inl (BibleRefError KindParse
              (Some (''failed to parse reference string: Book 1:1'' @ enDashRune @ ''5''))
              ErrBibleRefParseFailed
              (RefCause (BibleRefError KindInvalidVerse
                           (Some (''invalid verse: 1'' @ enDashRune @ ''5'')) ErrInvalidVerse
                           (NumCause (ErrSyntax (''1'' @ enDashRune @ ''5''))))))
   \<and> (\<forall>lowerU tbl r. Parse lowerU (''Book 1:1'' @ enDashRune @ ''5'') tbl \<noteq> Inr r)"
proof -
  have a: "Parse (\<lambda>s. s) ''Book 1:1-5'' bookTable
     = Inr \<lparr>OSIS = ''Book'', Chapter = 1, Verse = Some \<lparr>StartVerse = 1, EndVerse = Some 5\<rparr>\<rparr>"
    by code_simp
  have b: "Parse (\<lambda>s. s) (''Book 1:1'' @ enDashRune @ ''5'') bookTable
     = Inl (BibleRefError KindParse
              (Some (''failed to parse reference string: Book 1:1'' @ enDashRune @ ''5''))
              ErrBibleRefParseFailed
              (RefCause (BibleRefError KindInvalidVerse
                           (Some (''invalid verse: 1'' @ enDashRune @ ''5'')) ErrInvalidVerse
                           (NumCause (ErrSyntax (''1'' @ enDashRune @ ''5''))))))"
    by code_simp
  have f: "Fields (TrimSpace (''Book 1:1'' @ enDashRune @ ''5'')) = [''Book'', ''1:1'' @ enDashRune @ ''5'']"
    by code_simp
  have t: "parseTail (''1:1'' @ enDashRune @ ''5'') = Inr (''1:1'' @ enDashRune @ ''5'')"
    by code_simp
  have c: "parseChapterVerse (''1:1'' @ enDashRune @ ''5'')
             = Inl (BibleRefError KindInvalidVerse
                           (Some (''invalid verse: 1'' @ enDashRune @ ''5'')) ErrInvalidVerse
                           (NumCause (ErrSyntax (''1'' @ enDashRune @ ''5''))))"
    by code_simp
  have ne: "TrimSpace (''Book 1:1'' @ enDashRune @ ''5'') \<noteq> []" by code_simp
  have g: "parseRefString lowerU (''Book 1:1'' @ enDashRune @ ''5'') tbl \<noteq> Inr r" for lowerU tbl r
    using f t c ne by (simp add: parseRefString_def Let_def split: option.splits)
  have "Parse lowerU (''Book 1:1'' @ enDashRune @ ''5'') tbl \<noteq> Inr r" for lowerU tbl r
    using g [of lowerU tbl r] by (simp add: Parse_Inr doParse_Inr)
  with a b NewTable_bookBook show ?thesis by blast
qed

end
